theory Spec2Isabelle
  imports Complex_Main
begin

section \<open>Rate model of the four-state protein binding and unfolding notebook\<close>

text \<open>
  The notebook \<^verbatim>\<open>examples/protein_binding_unfolding_4state_model.ipynb\<close> defines two rate
  callbacks, \<^verbatim>\<open>_gibbs\<close> and \<^verbatim>\<open>_eyring\<close>, and the helper \<^verbatim>\<open>Se0_from_Tm\<close>.

  What Python raises on these code paths is a value of \<open>py_error\<close>: the true division of
  two numbers raises \<^verbatim>\<open>ZeroDivisionError\<close> on a zero divisor, \<^verbatim>\<open>math.log\<close> raises
  \<^verbatim>\<open>ValueError\<close> (math domain error) on an argument that is not positive, \<^verbatim>\<open>math.exp\<close>
  raises \<^verbatim>\<open>OverflowError\<close> when its result exceeds the largest float, unpacking a
  sequence of the wrong length raises \<^verbatim>\<open>ValueError\<close>, and a dictionary lookup raises
  \<^verbatim>\<open>KeyError\<close>.
\<close>

datatype py_error = ZeroDivisionError | ValueError | OverflowError | KeyError

definition bind_err :: "py_error + 'a \<Rightarrow> ('a \<Rightarrow> py_error + 'b) \<Rightarrow> py_error + 'b" where
  "bind_err m f = (case m of Inl e \<Rightarrow> Inl e | Inr x \<Rightarrow> f x)"

text \<open>
  The callbacks are duck typed: the operators \<^verbatim>\<open>+ - * /\<close> and unary minus are those of the
  operands, \<^verbatim>\<open>log\<close> and \<^verbatim>\<open>exp\<close> are attributes of the \<^verbatim>\<open>backend\<close> argument
  (\<^verbatim>\<open>math\<close> for numbers, \<^verbatim>\<open>sympy\<close> for symbols). The record collects the seven operations
  of one such number system; the operations that can raise return a sum. Addition,
  subtraction, multiplication and negation raise neither on floats, where they round
  and overflow to an infinity, nor on symbols.
\<close>

record 'a backend =
  add_op :: "'a \<Rightarrow> 'a \<Rightarrow> 'a"
  sub_op :: "'a \<Rightarrow> 'a \<Rightarrow> 'a"
  mul_op :: "'a \<Rightarrow> 'a \<Rightarrow> 'a"
  neg_op :: "'a \<Rightarrow> 'a"
  truediv_op :: "'a \<Rightarrow> 'a \<Rightarrow> py_error + 'a"
  log_op :: "'a \<Rightarrow> py_error + 'a"
  exp_op :: "'a \<Rightarrow> py_error + 'a"

text \<open>
  \<^verbatim>\<open>
  def _gibbs(args, T, R, backend, **kwargs):
      H, S, Cp, Tref = args
      H2 = H + Cp*(T - Tref)
      S2 = S + Cp*backend.log(T/Tref)
      return backend.exp(-(H2 - T*S2)/(R*T))
  \<close>
  The steps are in Python's evaluation order, so the first error met is the one raised.
\<close>

definition gibbs :: "'a backend \<Rightarrow> 'a list \<Rightarrow> 'a \<Rightarrow> 'a \<Rightarrow> py_error + 'a" where
  "gibbs backend args T R =
     (case args of
        [H, S, Cp, Tref] \<Rightarrow>
          (let H2 = add_op backend H (mul_op backend Cp (sub_op backend T Tref)) in
           bind_err (truediv_op backend T Tref) (\<lambda>q.
           bind_err (log_op backend q) (\<lambda>l.
           (let S2 = add_op backend S (mul_op backend Cp l) in
            bind_err
              (truediv_op backend
                 (neg_op backend (sub_op backend H2 (mul_op backend T S2)))
                 (mul_op backend R T))
              (\<lambda>e. exp_op backend e)))))
      | _ \<Rightarrow> Inl ValueError)"

text \<open>
  \<^verbatim>\<open>
  def _eyring(args, T, R, k_B, h, backend, **kwargs):
      H, S = args
      return k_B/h*T*backend.exp(-(H - T*S)/(R*T))
  \<close>
\<close>

definition eyring :: "'a backend \<Rightarrow> 'a list \<Rightarrow> 'a \<Rightarrow> 'a \<Rightarrow> 'a \<Rightarrow> 'a \<Rightarrow> py_error + 'a" where
  "eyring backend args T R k_B h =
     (case args of
        [H, S] \<Rightarrow>
          bind_err (truediv_op backend k_B h) (\<lambda>c.
          (let cT = mul_op backend c T in
           bind_err
             (truediv_op backend
                (neg_op backend (sub_op backend H (mul_op backend T S)))
                (mul_op backend R T))
             (\<lambda>e. bind_err (exp_op backend e) (\<lambda>x. Inr (mul_op backend cT x)))))
      | _ \<Rightarrow> Inl ValueError)"

subsection \<open>The numeric backend\<close>

text \<open>
  The backend \<^verbatim>\<open>math\<close> on numbers, in exact arithmetic. The operations are those of the
  real numbers and raise where Python's raise: a division on a zero divisor, the
  logarithm on an argument that is not positive, the exponential on an argument above
  the logarithm of the largest float (the floats above \<open>709.782712893384\<close>).

  The rounding of float arithmetic, its underflow to zero and its infinities are not
  part of this instance. It is used where the float code fails before any rounding
  matters, and as the numeric side of the comparison with the symbolic result. What
  \<open>gibbs\<close> and \<open>eyring\<close> return is stated for every backend, the floats included.
\<close>

definition py_truediv :: "real \<Rightarrow> real \<Rightarrow> py_error + real" where
  "py_truediv a b = (if b = 0 then Inl ZeroDivisionError else Inr (a / b))"

definition math_log :: "real \<Rightarrow> py_error + real" where
  "math_log x = (if x \<le> 0 then Inl ValueError else Inr (ln x))"

definition math_exp :: "real \<Rightarrow> py_error + real" where
  "math_exp x = (if 709.782712893384 < x then Inl OverflowError else Inr (exp x))"

definition math_backend :: "real backend" where
  "math_backend =
     \<lparr>add_op = (\<lambda>a b. a + b), sub_op = (\<lambda>a b. a - b), mul_op = (\<lambda>a b. a * b),
      neg_op = (\<lambda>a. - a), truediv_op = py_truediv, log_op = math_log, exp_op = math_exp\<rparr>"

subsection \<open>The symbolic backend\<close>

text \<open>
  With \<^verbatim>\<open>backend=sympy\<close> and symbols as arguments every operation builds an expression
  and none raises. The expressions are kept as the operators build them; the automatic
  reordering of terms that the library applies is not part of the model.
\<close>

datatype expr =
    Num real
  | Sym string
  | Add expr expr
  | Sub expr expr
  | Mul expr expr
  | Neg expr
  | Div expr expr
  | Log expr
  | Exp expr

definition sympy_backend :: "expr backend" where
  "sympy_backend =
     \<lparr>add_op = Add, sub_op = Sub, mul_op = Mul, neg_op = Neg,
      truediv_op = (\<lambda>a b. Inr (Div a b)), log_op = (\<lambda>a. Inr (Log a)),
      exp_op = (\<lambda>a. Inr (Exp a))\<rparr>"









subsection \<open>Entropy from the melting temperature\<close>

text \<open>
  \<^verbatim>\<open>
  def Se0_from_Tm(Tm, token):
      dH0, T0, dCp = params['He_'+token], params['Tref_'+token], params['Cp_'+token]
      return dH0/Tm + (Tm-T0)*dCp/Tm - dCp*math.log(Tm/T0)
  \<close>
  \<^verbatim>\<open>params\<close> is the notebook's global dictionary; here it is the first argument.
\<close>

definition lookup :: "(string \<rightharpoonup> real) \<Rightarrow> string \<Rightarrow> py_error + real" where
  "lookup params k = (case params k of None \<Rightarrow> Inl KeyError | Some v \<Rightarrow> Inr v)"

definition Se0_from_Tm :: "(string \<rightharpoonup> real) \<Rightarrow> real \<Rightarrow> string \<Rightarrow> py_error + real" where
  "Se0_from_Tm params Tm token =
     bind_err (lookup params (''He_'' @ token)) (\<lambda>dH0.
     bind_err (lookup params (''Tref_'' @ token)) (\<lambda>T0.
     bind_err (lookup params (''Cp_'' @ token)) (\<lambda>dCp.
     bind_err (py_truediv dH0 Tm) (\<lambda>a.
     bind_err (py_truediv ((Tm - T0) * dCp) Tm) (\<lambda>b.
     bind_err (py_truediv Tm T0) (\<lambda>q.
     bind_err (math_log q) (\<lambda>l.
     Inr (a + b - dCp * l))))))))"

section \<open>Reaction network and composition matrix\<close>

text \<open>
  The notebook builds its network with \<^verbatim>\<open>Substance\<close>, \<^verbatim>\<open>Reaction\<close>, \<^verbatim>\<open>Equilibrium\<close>
  and \<^verbatim>\<open>ReactionSystem\<close> and queries it with \<^verbatim>\<open>composition_balance_vectors\<close>. The
  notebook only calls them; their bodies are in the package and not in the notebook.
  The definitions of this section follow the specification's data model and the way
  the notebook uses the results. The rate law attached to a reaction plays no part in
  the composition of a network and is left out of the record.
\<close>

datatype network_error = MalformedNetwork | CompositionViolation

text \<open>
  Modelled from the spec: the class \<^verbatim>\<open>Substance\<close> (a species: an identifier and a
  composition, a mapping from component name to a non-negative count).
\<close>

record substance =
  sname :: string
  composition :: "(string \<times> nat) list"

text \<open>
  Modelled from the spec: the class \<^verbatim>\<open>Reaction\<close> (reactants and products as multisets
  of species, the spectator species given for both sides, and a name). The notebook
  passes the four collections in this order.
\<close>

record reaction =
  reac :: "(string \<times> nat) list"
  product :: "(string \<times> nat) list"
  inact_reac :: "(string \<times> nat) list"
  inact_prod :: "(string \<times> nat) list"
  rname :: string

text \<open>
  Modelled from the spec: the class \<^verbatim>\<open>ReactionSystem\<close> (the ordered reactions and the
  ordered species of a network).
\<close>

record network =
  rxns :: "reaction list"
  substances :: "substance list"

text \<open>
  The count of a key in a mapping, zero for an absent key; the amounts on the two sides
  of a reaction, spectators included; and the scalar product of two vectors.
\<close>

definition stoich :: "(string \<times> nat) list \<Rightarrow> string \<Rightarrow> nat" where
  "stoich m k = (case map_of m k of None \<Rightarrow> 0 | Some n \<Rightarrow> n)"

definition all_reac :: "reaction \<Rightarrow> string \<Rightarrow> nat" where
  "all_reac r k = stoich (reac r) k + stoich (inact_reac r) k"

definition all_prod :: "reaction \<Rightarrow> string \<Rightarrow> nat" where
  "all_prod r k = stoich (product r) k + stoich (inact_prod r) k"

definition dot :: "'a::comm_ring list \<Rightarrow> 'a list \<Rightarrow> 'a" where
  "dot u v = sum_list (map2 (\<lambda>a b. a * b) u v)"

text \<open>
  Modelled from the spec: the method \<^verbatim>\<open>composition_balance_vectors\<close>. It returns the
  composition matrix, one row per component and one column per species in network
  order, together with the list of component names (each name once). The notebook pairs
  every row with the species names and every component name with its row.
\<close>

definition composition_keys :: "substance list \<Rightarrow> string list" where
  "composition_keys ss = remdups (concat (map (\<lambda>s. map fst (composition s)) ss))"

definition composition_vector :: "substance list \<Rightarrow> string \<Rightarrow> int list" where
  "composition_vector ss k = map (\<lambda>s. int (stoich (composition s) k)) ss"

definition composition_balance_vectors :: "network \<Rightarrow> int list list \<times> string list" where
  "composition_balance_vectors net =
     (let ck = composition_keys (substances net)
      in (map (composition_vector (substances net)) ck, ck))"

text \<open>
  Modelled from the spec: the stoichiometric change vector of a reaction. For every
  species of the network, in network order, it holds what the reaction produces of the
  species minus what it consumes.
\<close>

definition net_stoich :: "network \<Rightarrow> reaction \<Rightarrow> int list" where
  "net_stoich net r =
     map (\<lambda>s. int (all_prod r (sname s)) - int (all_reac r (sname s))) (substances net)"

text \<open>
  Modelled from the spec: the checks of the constructor \<^verbatim>\<open>ReactionSystem\<close>. Every species
  a reaction names must be a species of the network, and for every component the two
  sides of a reaction must hold the same amount: mass conservation is enforced at
  construction. A network that fails a check is not built.
\<close>

definition reaction_keys :: "reaction \<Rightarrow> string list" where
  "reaction_keys r = map fst (reac r @ product r @ inact_reac r @ inact_prod r)"

definition keys_known :: "substance list \<Rightarrow> reaction \<Rightarrow> bool" where
  "keys_known ss r = list_all (\<lambda>k. k \<in> set (map sname ss)) (reaction_keys r)"

definition side_composition :: "substance list \<Rightarrow> (string \<Rightarrow> nat) \<Rightarrow> string \<Rightarrow> int" where
  "side_composition ss side k =
     dot (composition_vector ss k) (map (\<lambda>s. int (side (sname s))) ss)"

definition balanced :: "substance list \<Rightarrow> reaction \<Rightarrow> bool" where
  "balanced ss r =
     list_all (\<lambda>k. side_composition ss (all_reac r) k = side_composition ss (all_prod r) k)
       (composition_keys ss)"

definition ReactionSystem :: "reaction list \<Rightarrow> substance list \<Rightarrow> network_error + network" where
  "ReactionSystem rs ss =
     (if \<not> list_all (keys_known ss) rs then Inl MalformedNetwork
      else if \<not> list_all (balanced ss) rs then Inl CompositionViolation
      else Inr \<lparr>rxns = rs, substances = ss\<rparr>)"

text \<open>
  Modelled from the spec: the constructors \<^verbatim>\<open>Reaction\<close> and \<^verbatim>\<open>Equilibrium\<close> as the
  notebook calls them, with sets of species names (every species once), and
  \<^verbatim>\<open>Equilibrium.as_reactions\<close>, which gives the forward reaction and, under the new name,
  the backward one.
\<close>

definition from_keys :: "string list \<Rightarrow> (string \<times> nat) list" where
  "from_keys ks = map (\<lambda>k. (k, 1)) ks"

definition Reaction ::
  "string list \<Rightarrow> string list \<Rightarrow> string list \<Rightarrow> string list \<Rightarrow> string \<Rightarrow> reaction" where
  "Reaction r p ir ip nm =
     \<lparr>reac = from_keys r, product = from_keys p, inact_reac = from_keys ir,
      inact_prod = from_keys ip, rname = nm\<rparr>"

definition as_reactions :: "reaction \<Rightarrow> string \<Rightarrow> reaction list" where
  "as_reactions eq new_name =
     [eq, \<lparr>reac = product eq, product = reac eq, inact_reac = inact_prod eq,
           inact_prod = inact_reac eq, rname = new_name\<rparr>]"

subsection \<open>The network of the notebook\<close>

text \<open>
  \<^verbatim>\<open>
  substances = OrderedDict([
      ('N', Substance('N', composition={'protein': 1}, latex_name='[N]')),
      ('U', Substance('U', composition={'protein': 1}, latex_name='[U]')),
      ('A', Substance('A', composition={'protein': 1}, latex_name='[A]')),
      ('L', Substance('L', composition={'ligand': 1}, latex_name='[L]')),
      ('NL', Substance('NL', composition={'protein': 1, 'ligand': 1}, latex_name='[NL]')),
  ])
  eq_dis = Equilibrium({'NL'}, {'N', 'L'}, thermo_dis, name='ligand-protein dissociation')
  eq_u = Equilibrium({'N'}, {'U'}, thermo_u, {'L'}, {'L'}, name='protein unfolding')
  r_agg = Reaction({'U'}, {'A'}, kinetics_agg, {'L'}, {'L'}, name='protein aggregation')
  rsys = ReactionSystem(
      eq_dis.as_reactions(kb=kinetics_as, new_name='ligand-protein association') +
      eq_u.as_reactions(kb=kinetics_f, new_name='protein folding') +
      (r_agg,), substances, name='4-state CETSA system')
  \<close>
  \<open>substances_4state\<close> is the notebook's \<^verbatim>\<open>substances\<close>; \<open>rsys_net\<close> is the network
  that \<open>rsys\<close> builds.
\<close>

definition substances_4state :: "substance list" where
  "substances_4state =
     [\<lparr>sname = ''N'', composition = [(''protein'', 1)]\<rparr>,
      \<lparr>sname = ''U'', composition = [(''protein'', 1)]\<rparr>,
      \<lparr>sname = ''A'', composition = [(''protein'', 1)]\<rparr>,
      \<lparr>sname = ''L'', composition = [(''ligand'', 1)]\<rparr>,
      \<lparr>sname = ''NL'', composition = [(''protein'', 1), (''ligand'', 1)]\<rparr>]"

definition eq_dis :: reaction where
  "eq_dis = Reaction [''NL''] [''N'', ''L''] [] [] ''ligand-protein dissociation''"

definition eq_u :: reaction where
  "eq_u = Reaction [''N''] [''U''] [''L''] [''L''] ''protein unfolding''"

definition r_agg :: reaction where
  "r_agg = Reaction [''U''] [''A''] [''L''] [''L''] ''protein aggregation''"

definition rsys :: "network_error + network" where
  "rsys = ReactionSystem
     (as_reactions eq_dis ''ligand-protein association''
      @ as_reactions eq_u ''protein folding'' @ [r_agg]) substances_4state"

definition rsys_net :: network where
  "rsys_net = \<lparr>rxns = as_reactions eq_dis ''ligand-protein association''
      @ as_reactions eq_u ''protein folding'' @ [r_agg], substances = substances_4state\<rparr>"

section \<open>Independent invariants and rank\<close>

text \<open>
  Vectors over the species are sequences of reals; \<open>rvec\<close> is the real vector space
  they live in, so that span, linear independence and dimension are the library's.
  \<open>vec_of\<close> reads a list as a vector (zero beyond its length).
\<close>

typedef rvec = "UNIV :: (nat \<Rightarrow> real) set"
  by simp

setup_lifting type_definition_rvec

instantiation rvec :: real_vector
begin
lift_definition zero_rvec :: rvec is "\<lambda>i. 0" .
lift_definition plus_rvec :: "rvec \<Rightarrow> rvec \<Rightarrow> rvec" is "\<lambda>f g i. f i + g i" .
lift_definition minus_rvec :: "rvec \<Rightarrow> rvec \<Rightarrow> rvec" is "\<lambda>f g i. f i - g i" .
lift_definition uminus_rvec :: "rvec \<Rightarrow> rvec" is "\<lambda>f i. - f i" .
lift_definition scaleR_rvec :: "real \<Rightarrow> rvec \<Rightarrow> rvec" is "\<lambda>c f i. c * f i" .
instance
  by standard (transfer, simp add: fun_eq_iff algebra_simps)+
end

lift_definition coord :: "rvec \<Rightarrow> nat \<Rightarrow> real" is "\<lambda>f. f" .

lift_definition vec_of :: "real list \<Rightarrow> rvec" is
  "\<lambda>xs i. if i < length xs then xs ! i else 0" .

text \<open>
  Modelled from the spec: the count of independent invariants by a standard elimination
  in exact arithmetic. The rows are taken in order; a row is reduced by the pivot rows
  found so far and kept when something of it remains, and the remainder, scaled to a
  leading one and cleared from the other pivot rows, becomes a pivot row.
  \<open>independent_rows\<close> returns the rows kept.
\<close>

definition row_sub :: "real \<Rightarrow> real list \<Rightarrow> real list \<Rightarrow> real list" where
  "row_sub c x y = map2 (\<lambda>a b. b - c * a) x y"

fun first_nonzero :: "real list \<Rightarrow> nat option" where
  "first_nonzero [] = None"
| "first_nonzero (x # xs) = (if x \<noteq> 0 then Some 0 else map_option Suc (first_nonzero xs))"

fun reduce_by :: "(nat \<times> real list) list \<Rightarrow> real list \<Rightarrow> real list" where
  "reduce_by [] r = r"
| "reduce_by ((p, b) # B) r = reduce_by B (row_sub (r ! p) b r)"

definition add_pivot ::
  "(nat \<times> real list) list \<Rightarrow> nat \<Rightarrow> real list \<Rightarrow> (nat \<times> real list) list" where
  "add_pivot B p r =
     (let b = map (\<lambda>x. x / r ! p) r
      in map (\<lambda>(q, c). (q, row_sub (c ! p) b c)) B @ [(p, b)])"

fun independent_rows_from :: "(nat \<times> real list) list \<Rightarrow> int list list \<Rightarrow> int list list" where
  "independent_rows_from B [] = []"
| "independent_rows_from B (r # rs) =
     (let r' = reduce_by B (map real_of_int r)
      in case first_nonzero r' of
           None \<Rightarrow> independent_rows_from B rs
         | Some p \<Rightarrow> r # independent_rows_from (add_pivot B p r') rs)"

definition independent_rows :: "int list list \<Rightarrow> int list list" where
  "independent_rows A = independent_rows_from [] A"

text \<open>
  The rank of a matrix is the dimension of the space its rows span; \<open>dim\<close> is the
  dimension of the library's real vector spaces.
\<close>

definition row_vectors :: "int list list \<Rightarrow> rvec set" where
  "row_vectors A = (\<lambda>r. vec_of (map real_of_int r)) ` set A"

definition rank :: "int list list \<Rightarrow> nat" where
  "rank A = dim (row_vectors A)"

text \<open>
  The invariant of the elimination, used in the proofs: the pivot columns are distinct,
  and in the column of a pivot its own row holds one and every other pivot row zero.
\<close>

definition reduced :: "nat \<Rightarrow> (nat \<times> real list) list \<Rightarrow> bool" where
  "reduced n B \<longleftrightarrow>
     distinct (map fst B) \<and>
     (\<forall>(p, b)\<in>set B. p < n \<and> length b = n \<and>
        (\<forall>(q, c)\<in>set B. c ! p = (if q = p then 1 else 0)))"

definition bvecs :: "(nat \<times> real list) list \<Rightarrow> rvec set" where
  "bvecs B = (\<lambda>(p, b). vec_of b) ` set B"

text \<open>
  The product \<open>v \<cdot> M\<close> of a row vector and a matrix given by its rows (the combination
  of the rows with the coefficients \<open>v\<close>), the product \<open>M \<cdot> v\<close>, and the left null-space
  of a matrix: the vectors \<open>v\<close>, one coefficient per row, with \<open>v \<cdot> M = 0\<close>.
\<close>

definition ncols :: "'a list list \<Rightarrow> nat" where
  "ncols M = (case M of [] \<Rightarrow> 0 | r # _ \<Rightarrow> length r)"

fun lin_comb :: "nat \<Rightarrow> int list \<Rightarrow> int list list \<Rightarrow> int list" where
  "lin_comb m (c # v) (row # M) = map2 (\<lambda>a b. c * a + b) row (lin_comb m v M)"
| "lin_comb m v M = replicate m 0"

definition vec_mat :: "int list \<Rightarrow> int list list \<Rightarrow> int list" where
  "vec_mat v M = lin_comb (ncols M) v M"

definition mat_vec :: "int list list \<Rightarrow> int list \<Rightarrow> int list" where
  "mat_vec M v = map (\<lambda>row. dot row v) M"

definition left_null_space :: "int list list \<Rightarrow> int list \<Rightarrow> bool" where
  "left_null_space M v \<longleftrightarrow> length v = length M \<and> vec_mat v M = replicate (ncols M) 0"

text \<open>
  Modelled from the spec: the stoichiometric matrix of a network, one row per species
  and one column per reaction; its columns are the change vectors \<open>net_stoich\<close>.
\<close>

definition stoich_matrix :: "network \<Rightarrow> int list list" where
  "stoich_matrix net =
     map (\<lambda>s. map (\<lambda>r. int (all_prod r (sname s)) - int (all_reac r (sname s))) (rxns net))
       (substances net)"

section \<open>Properties of the rate model\<close>

lemma gibbs_any_backend:
  "gibbs b [H, S, Cp, Tref] T R =
     (case truediv_op b T Tref of
        Inl e \<Rightarrow> Inl e
      | Inr q \<Rightarrow>
          (case log_op b q of
             Inl e \<Rightarrow> Inl e
           | Inr l \<Rightarrow>
               (case truediv_op b
                       (neg_op b (sub_op b (add_op b H (mul_op b Cp (sub_op b T Tref)))
                                          (mul_op b T (add_op b S (mul_op b Cp l)))))
                       (mul_op b R T) of
                  Inl e \<Rightarrow> Inl e
                | Inr x \<Rightarrow> exp_op b x)))"
  by (simp add: gibbs_def bind_err_def Let_def)

lemma eyring_any_backend:
  "eyring b [H, S] T R k_B h =
     (case truediv_op b k_B h of
        Inl e \<Rightarrow> Inl e
      | Inr c \<Rightarrow>
          (case truediv_op b (neg_op b (sub_op b H (mul_op b T S))) (mul_op b R T) of
             Inl e \<Rightarrow> Inl e
           | Inr x \<Rightarrow>
               (case exp_op b x of
                  Inl e \<Rightarrow> Inl e
                | Inr y \<Rightarrow> Inr (mul_op b (mul_op b c T) y))))"
  by (simp add: eyring_def bind_err_def Let_def)

lemma gibbs_math_eq:
  "gibbs math_backend [H, S, Cp, Tref] T R =
     (if Tref = 0 then Inl ZeroDivisionError
      else if T / Tref \<le> 0 then Inl ValueError
      else if R * T = 0 then Inl ZeroDivisionError
      else math_exp (- ((H + Cp * (T - Tref)) - T * (S + Cp * ln (T / Tref))) / (R * T)))"
  by (simp add: gibbs_any_backend math_backend_def py_truediv_def math_log_def)

lemma gibbs_sympy_eq:
  "gibbs sympy_backend [H, S, Cp, Tref] T R =
     Inr (Exp (Div (Neg (Sub (Add H (Mul Cp (Sub T Tref)))
                             (Mul T (Add S (Mul Cp (Log (Div T Tref)))))))
                   (Mul R T)))"
  by (simp add: gibbs_any_backend sympy_backend_def)

lemma eyring_math_eq:
  "eyring math_backend [H, S] T R k_B h =
     (if h = 0 then Inl ZeroDivisionError
      else if R * T = 0 then Inl ZeroDivisionError
      else if 709.782712893384 < - (H - T * S) / (R * T) then Inl OverflowError
      else Inr (k_B / h * T * exp (- (H - T * S) / (R * T))))"
  by (simp add: eyring_any_backend math_backend_def py_truediv_def math_exp_def)

lemma eyring_sympy_eq:
  "eyring sympy_backend [H, S] T R k_B h =
     Inr (Mul (Mul (Div k_B h) T) (Exp (Div (Neg (Sub H (Mul T S))) (Mul R T))))"
  by (simp add: eyring_any_backend sympy_backend_def)

text \<open>
  Claim C1, as amended. For every backend, that is for numbers in whatever arithmetic
  they carry (for floats: rounded, with its infinities) and for symbols: when the
  division \<open>T / Tref\<close>, the logarithm and the division by \<open>R * T\<close> return, \<open>gibbs\<close> gives
  exactly what the backend's \<open>exp\<close> gives on \<open>- (H2 - T * S2) / (R * T)\<close>, with
  \<open>H2 = H + Cp * (T - Tref)\<close> and \<open>S2 = S + Cp * log (T / Tref)\<close> computed by the
  backend's operations; when one of them raises, \<open>gibbs\<close> raises that error and returns
  nothing. On symbols nothing raises and the expression of this shape is returned. The
  function is pure: its result depends on its arguments only.
\<close>

theorem gibbs_returns_formula:
  "gibbs b [H, S, Cp, Tref] T R =
     (case truediv_op b T Tref of
        Inl e \<Rightarrow> Inl e
      | Inr q \<Rightarrow>
          (case log_op b q of
             Inl e \<Rightarrow> Inl e
           | Inr l \<Rightarrow>
               (case truediv_op b
                       (neg_op b (sub_op b (add_op b H (mul_op b Cp (sub_op b T Tref)))
                                          (mul_op b T (add_op b S (mul_op b Cp l)))))
                       (mul_op b R T) of
                  Inl e \<Rightarrow> Inl e
                | Inr x \<Rightarrow> exp_op b x)))
   \<and> gibbs sympy_backend [eH, eS, eCp, eTref] eT eR =
     Inr (Exp (Div (Neg (Sub (Add eH (Mul eCp (Sub eT eTref)))
                             (Mul eT (Add eS (Mul eCp (Log (Div eT eTref)))))))
                   (Mul eR eT)))"
  by (rule conjI [OF gibbs_any_backend gibbs_sympy_eq])

text \<open>
  Claim C1 as stated (a value is returned for every input) fails on numbers: at \<open>T = 0\<close>
  the logarithm of \<open>0 / 298\<close> raises, and at \<open>H = -1000\<close>, \<open>S = Cp = 0\<close>,
  \<open>Tref = T = R = 1\<close> the exponential of \<open>1000\<close> overflows.
\<close>

theorem gibbs_every_input_counterexample:
  "gibbs math_backend [60000, 180, 20500, 298] 0 8 = Inl ValueError
   \<and> gibbs math_backend [- 1000, 0, 0, 1] 1 1 = Inl OverflowError"
  by (simp add: gibbs_math_eq math_exp_def)

text \<open>
  Claim C2, as amended. For every backend: when the division \<open>k_B / h\<close>, the division
  by \<open>R * T\<close> and the exponential return, \<open>eyring\<close> gives exactly
  \<open>k_B / h * T * exp (- (H - T * S) / (R * T))\<close> computed by the backend's operations;
  when one of them raises, \<open>eyring\<close> raises that error and returns nothing. On symbols
  nothing raises and the expression of this shape is returned.
\<close>

theorem eyring_returns_formula:
  "eyring b [H, S] T R k_B h =
     (case truediv_op b k_B h of
        Inl e \<Rightarrow> Inl e
      | Inr c \<Rightarrow>
          (case truediv_op b (neg_op b (sub_op b H (mul_op b T S))) (mul_op b R T) of
             Inl e \<Rightarrow> Inl e
           | Inr x \<Rightarrow>
               (case exp_op b x of
                  Inl e \<Rightarrow> Inl e
                | Inr y \<Rightarrow> Inr (mul_op b (mul_op b c T) y))))
   \<and> eyring sympy_backend [eH, eS] eT eR ek_B eh =
     Inr (Mul (Mul (Div ek_B eh) eT) (Exp (Div (Neg (Sub eH (Mul eT eS))) (Mul eR eT))))"
  by (rule conjI [OF eyring_any_backend eyring_sympy_eq])

text \<open>
  Claim C2 as stated (a value is returned for every input) fails on numbers: at \<open>T = 0\<close>
  the division by \<open>R * T\<close> raises, and at \<open>H = -1000\<close>, \<open>S = 0\<close> and
  \<open>T = R = k_B = h = 1\<close> the exponential of \<open>1000\<close> overflows.
\<close>

theorem eyring_every_input_counterexample:
  "eyring math_backend [106000, 70] 0 8 1 1 = Inl ZeroDivisionError
   \<and> eyring math_backend [- 1000, 0] 1 1 1 1 = Inl OverflowError"
  by (simp add: eyring_math_eq)















text \<open>
  Claim C4, as amended. On numbers, \<open>gibbs\<close> fails with \<^verbatim>\<open>ValueError\<close> (the domain error
  of \<^verbatim>\<open>math.log\<close>) when \<open>T \<le> 0 < Tref\<close>, in particular at \<open>T = -1\<close> with a positive
  reference temperature, and when \<open>Tref < 0 \<le> T\<close>; it fails with
  \<^verbatim>\<open>ZeroDivisionError\<close> when \<open>Tref = 0\<close>.
\<close>

theorem gibbs_domain_error:
  "((T \<le> 0 \<and> 0 < Tref) \<or> (0 \<le> T \<and> Tref < 0)
      \<longrightarrow> gibbs math_backend [H, S, Cp, Tref] T R = Inl ValueError)
   \<and> (Tref = 0 \<longrightarrow> gibbs math_backend [H, S, Cp, Tref] T R = Inl ZeroDivisionError)"
  by (auto simp add: gibbs_math_eq divide_le_0_iff)

theorem gibbs_domain_error_witness:
  "gibbs math_backend [60000, 180, 20500, 298] (- 1) 8 = Inl ValueError
   \<and> gibbs math_backend [60000, 180, 20500, 0] 323 8 = Inl ZeroDivisionError"
  using gibbs_domain_error [of "- 1" 298 60000 180 20500 8]
    gibbs_domain_error [of 323 0 60000 180 20500 8]
  by simp

text \<open>
  Claim C4 as stated (every \<open>T \<le> 0\<close> or \<open>Tref \<le> 0\<close> fails) does not hold when both
  temperatures are negative: the quotient \<open>T / Tref\<close> is positive and a number is returned.
\<close>

theorem gibbs_negative_temperatures_counterexample:
  "gibbs math_backend [1, 2, 3, - 1] (- 1) 1 = Inr (exp 3)"
  by (simp add: gibbs_math_eq math_exp_def)

section \<open>Properties of the network and its invariants\<close>

lemma dot_map_diff:
  "dot (map f xs) (map (\<lambda>x. g x - h x) xs) = dot (map f xs) (map g xs) - dot (map f xs) (map h xs)"
  for f g h :: "'b \<Rightarrow> 'a::comm_ring"
  by (induction xs) (simp_all add: dot_def algebra_simps)

lemma composition_vector_annihilates:
  assumes "ReactionSystem rs ss = Inr net"
    and "v \<in> set (fst (composition_balance_vectors net))"
    and "r \<in> set (rxns net)"
  shows "dot v (net_stoich net r) = 0"
proof -
  from assms(1) have net: "rxns net = rs" "substances net = ss"
    and bal: "list_all (balanced ss) rs"
    by (auto simp: ReactionSystem_def split: if_splits)
  from assms(2) obtain k where k: "k \<in> set (composition_keys ss)"
    and v: "v = composition_vector ss k"
    by (auto simp: composition_balance_vectors_def Let_def net)
  from bal assms(3) net have "balanced ss r" by (simp add: list_all_iff)
  with k have "side_composition ss (all_reac r) k = side_composition ss (all_prod r) k"
    by (simp add: balanced_def list_all_iff)
  then show ?thesis
    unfolding v net_stoich_def net side_composition_def composition_vector_def
    by (simp add: dot_map_diff)
qed

lemma rvec_eqI: "(\<And>i. coord x i = coord y i) \<Longrightarrow> x = y"
  by transfer auto

lemma coord_zero [simp]: "coord 0 i = 0"
  by transfer simp

lemma coord_add [simp]: "coord (x + y) i = coord x i + coord y i"
  by transfer simp

lemma coord_diff [simp]: "coord (x - y) i = coord x i - coord y i"
  by transfer simp

lemma coord_scale [simp]: "coord (c *\<^sub>R x) i = c * coord x i"
  by transfer simp

lemma coord_vec_of [simp]: "coord (vec_of xs) i = (if i < length xs then xs ! i else 0)"
  by transfer simp

lemma coord_sum: "coord (sum f S) i = (\<Sum>x\<in>S. coord (f x) i)"
  by (induction S rule: infinite_finite_induct) simp_all

lemma length_row_sub [simp]: "length (row_sub c x y) = min (length x) (length y)"
  by (simp add: row_sub_def)

lemma nth_row_sub [simp]:
  "i < length x \<Longrightarrow> i < length y \<Longrightarrow> row_sub c x y ! i = y ! i - c * x ! i"
  by (simp add: row_sub_def)

lemma vec_of_row_sub:
  "length x = length y \<Longrightarrow> vec_of (row_sub c x y) = vec_of y - c *\<^sub>R vec_of x"
  by (rule rvec_eqI) simp

lemma vec_of_divide: "vec_of (map (\<lambda>x. x / d) r) = (1 / d) *\<^sub>R vec_of r"
  by (rule rvec_eqI) simp

lemma first_nonzero_None_nth:
  "first_nonzero r = None \<Longrightarrow> i < length r \<Longrightarrow> r ! i = 0"
  by (induction r arbitrary: i) (auto simp: nth_Cons split: if_splits nat.splits)

lemma first_nonzero_None: "first_nonzero r = None \<Longrightarrow> vec_of r = 0"
  by (rule rvec_eqI) (simp add: first_nonzero_None_nth)

lemma first_nonzero_Some: "first_nonzero r = Some p \<Longrightarrow> p < length r \<and> r ! p \<noteq> 0"
  by (induction r arbitrary: p) (auto split: if_splits)

lemma reducedD:
  assumes "reduced n B" and "(p, b) \<in> set B"
  shows "p < n" and "length b = n" and "b ! p = 1"
    and "\<And>q c. (q, c) \<in> set B \<Longrightarrow> q \<noteq> p \<Longrightarrow> c ! p = 0"
  using assms unfolding reduced_def by fastforce+

lemma reduced_tl: "reduced n (x # B) \<Longrightarrow> reduced n B"
  unfolding reduced_def by auto

lemma reduced_pivot_unique:
  "reduced n B \<Longrightarrow> (p, b) \<in> set B \<Longrightarrow> (p, c) \<in> set B \<Longrightarrow> b = c"
  unfolding reduced_def by (meson eq_key_imp_eq_value)

lemma reduce_by_length:
  "\<forall>x\<in>set B. length (snd x) = length r \<Longrightarrow> length (reduce_by B r) = length r"
  by (induction B r rule: reduce_by.induct) simp_all

lemma reduce_by_unchanged:
  "\<forall>x\<in>set B. length (snd x) = length r \<and> snd x ! p = 0 \<Longrightarrow> p < length r
     \<Longrightarrow> reduce_by B r ! p = r ! p"
  by (induction B r rule: reduce_by.induct) simp_all

lemma reduce_by_pivot_zero:
  "reduced n B \<Longrightarrow> length r = n \<Longrightarrow> (p, b) \<in> set B \<Longrightarrow> reduce_by B r ! p = 0"
proof (induction B r rule: reduce_by.induct)
  case (1 r)
  then show ?case by simp
next
  case (2 q c B r)
  let ?r1 = "row_sub (r ! q) c r"
  have red: "reduced n B" using "2.prems"(1) by (rule reduced_tl)
  have qc: "q < n" "length c = n" "c ! q = 1"
    using reducedD(1-3) [OF "2.prems"(1), of q c] by simp_all
  have len: "length ?r1 = n" using qc "2.prems"(2) by simp
  show ?case
  proof (cases "p = q")
    case True
    have "reduce_by B ?r1 ! q = ?r1 ! q"
    proof (rule reduce_by_unchanged)
      show "\<forall>x\<in>set B. length (snd x) = length ?r1 \<and> snd x ! q = 0"
      proof
        fix x assume x: "x \<in> set B"
        obtain q' c' where x_eq: "x = (q', c')" by (cases x)
        have in_B: "(q', c') \<in> set B" using x x_eq by simp
        then have "q' \<noteq> q" using "2.prems"(1) unfolding reduced_def by force
        then have "c' ! q = 0"
          using reducedD(4) [OF "2.prems"(1), of q c q' c'] in_B by simp
        moreover have "length c' = n" using reducedD(2) [OF red in_B] .
        ultimately show "length (snd x) = length ?r1 \<and> snd x ! q = 0"
          using len x_eq by simp
      qed
    next
      show "q < length ?r1" using len qc by simp
    qed
    also have "?r1 ! q = 0" using qc "2.prems"(2) by simp
    finally show ?thesis using True by simp
  next
    case False
    then have "(p, b) \<in> set B" using "2.prems"(3) by simp
    then show ?thesis using "2.IH" [OF red len] by simp
  qed
qed

lemma reduce_by_span:
  "\<forall>x\<in>set B. length (snd x) = length r
     \<Longrightarrow> vec_of (reduce_by B r) - vec_of r \<in> span (bvecs B)"
proof (induction B r rule: reduce_by.induct)
  case (1 r)
  then show ?case by (simp add: span_zero)
next
  case (2 q c B r)
  let ?r1 = "row_sub (r ! q) c r"
  have lc: "length c = length r" using "2.prems" by simp
  then have len: "length ?r1 = length r" by simp
  have "vec_of (reduce_by B ?r1) - vec_of ?r1 \<in> span (bvecs B)"
    using "2.prems" len by (intro "2.IH") simp
  moreover have "bvecs B \<subseteq> bvecs ((q, c) # B)" by (auto simp: bvecs_def)
  ultimately have a: "vec_of (reduce_by B ?r1) - vec_of ?r1 \<in> span (bvecs ((q, c) # B))"
    using span_mono by blast
  have "vec_of c \<in> span (bvecs ((q, c) # B))"
    by (rule span_base) (simp add: bvecs_def)
  then have b: "vec_of ?r1 - vec_of r \<in> span (bvecs ((q, c) # B))"
    by (simp add: vec_of_row_sub lc span_neg span_scale)
  have "(vec_of (reduce_by B ?r1) - vec_of ?r1) + (vec_of ?r1 - vec_of r)
          = vec_of (reduce_by B ?r1) - vec_of r"
    by simp
  then show ?case using span_add [OF a b] by (simp only: reduce_by.simps)
qed

lemma span_zero_at_pivots:
  assumes red: "reduced n B" and x: "x \<in> span (bvecs B)"
    and z: "\<And>p b. (p, b) \<in> set B \<Longrightarrow> coord x p = 0"
  shows "x = 0"
proof -
  have fin: "finite (bvecs B)" by (simp add: bvecs_def)
  from x obtain u where u: "x = (\<Sum>v\<in>bvecs B. u v *\<^sub>R v)"
    unfolding span_finite [OF fin] by auto
  have "u v = 0" if v: "v \<in> bvecs B" for v
  proof -
    from v obtain p b where pb: "(p, b) \<in> set B" and vb: "v = vec_of b"
      by (auto simp: bvecs_def)
    note d = reducedD [OF red pb]
    have other: "coord w p = 0" if w: "w \<in> bvecs B" and ne: "w \<noteq> v" for w
    proof -
      from w obtain q c where qc: "(q, c) \<in> set B" and wc: "w = vec_of c"
        by (auto simp: bvecs_def)
      have "q \<noteq> p" using reduced_pivot_unique [OF red pb] qc ne vb wc by auto
      then have "c ! p = 0" using d(4) qc by simp
      then show ?thesis by (simp add: wc)
    qed
    have "coord x p = (\<Sum>w\<in>bvecs B. u w * coord w p)"
      by (simp add: u coord_sum)
    also have "\<dots> = (\<Sum>w\<in>bvecs B. if w = v then u v else 0)"
      by (rule sum.cong) (auto simp: other vb d)
    also have "\<dots> = u v" using fin v by simp
    finally show ?thesis using z [OF pb] by simp
  qed
  then show ?thesis by (simp add: u)
qed

lemma bvecsI: "(q, c) \<in> set B \<Longrightarrow> vec_of c \<in> bvecs B"
  by (force simp: bvecs_def)

lemma in_add_pivot:
  "x \<in> set (add_pivot B p r) \<longleftrightarrow>
     x = (p, map (\<lambda>a. a / r ! p) r) \<or>
     (\<exists>q c. (q, c) \<in> set B \<and> x = (q, row_sub (c ! p) (map (\<lambda>a. a / r ! p) r) c))"
  by (auto simp: add_pivot_def Let_def)

lemma map_fst_add_pivot: "map fst (add_pivot B p r) = map fst B @ [p]"
  by (simp add: add_pivot_def Let_def case_prod_unfold comp_def)

lemma add_pivot_reduced:
  assumes red: "reduced n B" and len: "length r = n" and p: "p < n" and nz: "r ! p \<noteq> 0"
    and z: "\<And>q c. (q, c) \<in> set B \<Longrightarrow> r ! q = 0"
  shows "reduced n (add_pivot B p r)"
proof -
  define b where "b = map (\<lambda>a. a / r ! p) r"
  have lb: "length b = n" by (simp add: b_def len)
  have bp: "b ! p = 1" using p len nz by (simp add: b_def)
  have bq: "b ! q = 0" if "(q, c) \<in> set B" for q c
    using reducedD(1) [OF red that] z [OF that] len by (simp add: b_def)
  have fresh: "p \<notin> fst ` set B"
  proof
    assume "p \<in> fst ` set B"
    then obtain c where "(p, c) \<in> set B" by auto
    from z [OF this] nz show False by simp
  qed
  have dist: "distinct (map fst (add_pivot B p r))"
    using red fresh by (simp add: map_fst_add_pivot reduced_def)
  have new: "row_sub (c ! p) b c ! i = c ! i - c ! p * b ! i"
    if "(q, c) \<in> set B" and "i < n" for q c i
    using reducedD(2) [OF red that(1)] lb that(2) by simp
  have entry: "c1 ! p1 = (if q1 = p1 then 1 else 0) \<and> p1 < n \<and> length b1 = n"
    if x: "(p1, b1) \<in> set (add_pivot B p r)" and y: "(q1, c1) \<in> set (add_pivot B p r)"
    for p1 b1 q1 c1
  proof -
    from x consider (a) "p1 = p" "b1 = b"
      | (b) c where "(p1, c) \<in> set B" "b1 = row_sub (c ! p) b c"
      by (auto simp: in_add_pivot b_def)
    then show ?thesis
    proof cases
      case a
      from y consider (a') "q1 = p" "c1 = b"
        | (b') c where "(q1, c) \<in> set B" "c1 = row_sub (c ! p) b c"
        by (auto simp: in_add_pivot b_def)
      then show ?thesis
      proof cases
        case a'
        then show ?thesis using a bp p lb by simp
      next
        case b'
        have "q1 \<noteq> p" using b'(1) fresh by force
        then show ?thesis using a b' new [OF b'(1) p] bp p lb by simp
      qed
    next
      case b
      note d = reducedD [OF red b(1)]
      have l1: "length b1 = n" using b d(2) lb by simp
      from y consider (a') "q1 = p" "c1 = b"
        | (b') c' where "(q1, c') \<in> set B" "c1 = row_sub (c' ! p) b c'"
        by (auto simp: in_add_pivot b_def)
      then show ?thesis
      proof cases
        case a'
        have "p1 \<noteq> p" using b(1) fresh by force
        then show ?thesis using a' bq [OF b(1)] d(1) l1 by simp
      next
        case b'
        have "c' ! p1 = (if q1 = p1 then 1 else 0)"
          using d(3,4) b'(1) reduced_pivot_unique [OF red b(1)] by auto
        then show ?thesis using b' new [OF b'(1) d(1)] bq [OF b(1)] d(1) l1 by simp
      qed
    qed
  qed
  show ?thesis
    unfolding reduced_def using dist entry by blast
qed

lemma add_pivot_span:
  assumes red: "reduced n B" and len: "length r = n" and nz: "r ! p \<noteq> 0"
  shows "span (bvecs (add_pivot B p r)) = span (insert (vec_of r) (bvecs B))"
proof -
  define b where "b = map (\<lambda>a. a / r ! p) r"
  have lb: "length b = n" by (simp add: b_def len)
  have vb: "vec_of b = (1 / r ! p) *\<^sub>R vec_of r" by (simp add: b_def vec_of_divide)
  have vr: "vec_of r = (r ! p) *\<^sub>R vec_of b" using nz by (simp add: vb)
  have vc: "vec_of (row_sub (c ! p) b c) = vec_of c - (c ! p) *\<^sub>R vec_of b"
    if "(q, c) \<in> set B" for q c
    using reducedD(2) [OF red that] lb by (simp add: vec_of_row_sub)
  let ?new = "bvecs (add_pivot B p r)" and ?old = "insert (vec_of r) (bvecs B)"
  have b_old: "vec_of b \<in> span ?old"
    unfolding vb by (intro span_scale span_base) simp
  have "(p, b) \<in> set (add_pivot B p r)"
    by (simp add: in_add_pivot b_def)
  then have b_new: "vec_of b \<in> span ?new"
    by (intro span_base bvecsI)
  have "?new \<subseteq> span ?old"
  proof
    fix v assume "v \<in> ?new"
    then consider "v = vec_of b"
      | q c where "(q, c) \<in> set B" "v = vec_of (row_sub (c ! p) b c)"
      by (auto simp: bvecs_def in_add_pivot b_def)
    then show "v \<in> span ?old"
    proof cases
      case 1
      then show ?thesis using b_old by simp
    next
      case 2
      have "vec_of c \<in> span ?old"
        using bvecsI [OF 2(1)] by (simp add: span_base)
      then show ?thesis
        unfolding 2(2) vc [OF 2(1)] by (intro span_diff span_scale b_old)
    qed
  qed
  moreover have "?old \<subseteq> span ?new"
  proof
    fix v assume "v \<in> ?old"
    then consider "v = vec_of r" | q c where "(q, c) \<in> set B" "v = vec_of c"
      by (auto simp: bvecs_def)
    then show "v \<in> span ?new"
    proof cases
      case 1
      have "(r ! p) *\<^sub>R vec_of b \<in> span ?new" by (intro span_scale b_new)
      then show ?thesis using 1 vr by simp
    next
      case 2
      have "(q, row_sub (c ! p) b c) \<in> set (add_pivot B p r)"
        using 2(1) by (auto simp: in_add_pivot b_def)
      then have "vec_of (row_sub (c ! p) b c) \<in> span ?new"
        by (intro span_base bvecsI)
      then have "vec_of c - (c ! p) *\<^sub>R vec_of b \<in> span ?new"
        by (simp add: vc [OF 2(1)])
      from span_add [OF this span_scale [OF b_new, of "c ! p"]]
      show ?thesis by (simp add: 2(2))
    qed
  qed
  ultimately show ?thesis by (simp add: span_eq)
qed

lemma row_vectors_Cons:
  "row_vectors (r # rs) = insert (vec_of (map real_of_int r)) (row_vectors rs)"
  by (simp add: row_vectors_def)

lemma independent_rows_from_correct:
  assumes "reduced n B" and "\<forall>r\<in>set rs. length r = n"
    and "finite K0" and "independent K0" and "span K0 = span (bvecs B)"
  shows "independent (K0 \<union> row_vectors (independent_rows_from B rs))
       \<and> span (K0 \<union> row_vectors (independent_rows_from B rs)) = span (K0 \<union> row_vectors rs)
       \<and> card (K0 \<union> row_vectors (independent_rows_from B rs))
           = card K0 + length (independent_rows_from B rs)
       \<and> set (independent_rows_from B rs) \<subseteq> set rs"
  using assms
proof (induction rs arbitrary: B K0)
  case Nil
  then show ?case by (simp add: row_vectors_def)
next
  case (Cons r rs)
  define rr where "rr = map real_of_int r"
  define r' where "r' = reduce_by B rr"
  note red = Cons.prems(1)
  have lrr: "length rr = n" using Cons.prems(2) by (simp add: rr_def)
  have lens: "\<forall>x\<in>set B. length (snd x) = length rr"
    using red lrr unfolding reduced_def by auto
  have lr': "length r' = n" using reduce_by_length [OF lens] lrr by (simp add: r'_def)
  have d: "vec_of r' - vec_of rr \<in> span K0"
    using reduce_by_span [OF lens] Cons.prems(5) by (simp add: r'_def)
  have zp: "r' ! q = 0" if "(q, c) \<in> set B" for q c
    using reduce_by_pivot_zero [OF red lrr that] by (simp add: r'_def)
  have rest: "\<forall>r\<in>set rs. length r = n" using Cons.prems(2) by simp
  show ?case
  proof (cases "first_nonzero r'")
    case None
    then have "vec_of r' = 0" by (rule first_nonzero_None)
    with d have "- vec_of rr \<in> span K0" by simp
    then have "vec_of rr \<in> span K0" using span_neg by fastforce
    then have "vec_of rr \<in> span (K0 \<union> row_vectors rs)"
      using span_mono [of K0 "K0 \<union> row_vectors rs"] by auto
    then have sp: "span (K0 \<union> row_vectors (r # rs)) = span (K0 \<union> row_vectors rs)"
      by (simp add: row_vectors_Cons rr_def span_redundant)
    have eq: "independent_rows_from B (r # rs) = independent_rows_from B rs"
      using None by (simp add: r'_def rr_def Let_def)
    from Cons.IH [OF red rest Cons.prems(3,4,5)] show ?thesis
      unfolding eq sp by auto
  next
    case (Some p)
    then have p: "p < n" "r' ! p \<noteq> 0" using first_nonzero_Some [of r' p] lr' by auto
    define B' where "B' = add_pivot B p r'"
    define K0' where "K0' = insert (vec_of rr) K0"
    have notin: "vec_of rr \<notin> span K0"
    proof
      assume "vec_of rr \<in> span K0"
      from span_add [OF d this] have "vec_of r' \<in> span (bvecs B)"
        using Cons.prems(5) by simp
      then have "vec_of r' = 0"
      proof (rule span_zero_at_pivots [OF red])
        fix q c assume qc: "(q, c) \<in> set B"
        show "coord (vec_of r') q = 0" using zp [OF qc] by simp
      qed
      then have "coord (vec_of r') p = 0" by simp
      with p lr' show False by simp
    qed
    have red': "reduced n B'"
      unfolding B'_def using red lr' p zp by (intro add_pivot_reduced)
    have fin': "finite K0'" using Cons.prems(3) by (simp add: K0'_def)
    have ind': "independent K0'"
      unfolding K0'_def using notin Cons.prems(4) by (rule independent_insertI)
    have r'_in: "vec_of r' \<in> span K0'"
    proof -
      have "vec_of r' - vec_of rr \<in> span K0'"
        using d span_mono [of K0 K0'] by (auto simp: K0'_def)
      moreover have "vec_of rr \<in> span K0'" by (simp add: K0'_def span_base)
      ultimately have "(vec_of r' - vec_of rr) + vec_of rr \<in> span K0'" by (rule span_add)
      then show ?thesis by simp
    qed
    have rr_in: "vec_of rr \<in> span (insert (vec_of r') (bvecs B))"
    proof -
      have "vec_of r' - vec_of rr \<in> span (insert (vec_of r') (bvecs B))"
        using d Cons.prems(5) span_mono [of "bvecs B" "insert (vec_of r') (bvecs B)"] by auto
      moreover have "vec_of r' \<in> span (insert (vec_of r') (bvecs B))"
        by (simp add: span_base)
      ultimately have "vec_of r' - (vec_of r' - vec_of rr) \<in> span (insert (vec_of r') (bvecs B))"
        by (rule span_diff [rotated])
      then show ?thesis by simp
    qed
    have "span (insert (vec_of r') (bvecs B)) = span K0'"
    proof (subst span_eq, intro conjI subsetI)
      fix v assume "v \<in> insert (vec_of r') (bvecs B)"
      then consider "v = vec_of r'" | "v \<in> bvecs B" by auto
      then show "v \<in> span K0'"
      proof cases
        case 1
        then show ?thesis using r'_in by simp
      next
        case 2
        then have "v \<in> span K0" using Cons.prems(5) span_base by blast
        then show ?thesis using span_mono [of K0 K0'] by (auto simp: K0'_def)
      qed
    next
      fix v assume "v \<in> K0'"
      then consider "v = vec_of rr" | "v \<in> K0" by (auto simp: K0'_def)
      then show "v \<in> span (insert (vec_of r') (bvecs B))"
      proof cases
        case 1
        then show ?thesis using rr_in by simp
      next
        case 2
        then have "v \<in> span (bvecs B)" using Cons.prems(5) span_base by blast
        then show ?thesis
          using span_mono [of "bvecs B" "insert (vec_of r') (bvecs B)"] by auto
      qed
    qed
    then have sp': "span K0' = span (bvecs B')"
      unfolding B'_def using add_pivot_span [OF red lr' p(2)] by simp
    have eq: "independent_rows_from B (r # rs) = r # independent_rows_from B' rs"
      using Some by (simp add: r'_def rr_def Let_def B'_def)
    have un: "K0 \<union> row_vectors (r # K) = K0' \<union> row_vectors K" for K
      by (simp add: row_vectors_Cons K0'_def rr_def)
    have "vec_of rr \<notin> K0" using notin span_base by blast
    then have card': "card K0' = Suc (card K0)"
      using Cons.prems(3) by (simp add: K0'_def)
    from Cons.IH [OF red' rest fin' ind' sp'] show ?thesis
      unfolding eq un card' by auto
  qed
qed

lemma independent_rows_correct:
  assumes "\<forall>r\<in>set A. length r = n"
  shows "independent (row_vectors (independent_rows A))"
    and "span (row_vectors (independent_rows A)) = span (row_vectors A)"
    and "card (row_vectors (independent_rows A)) = length (independent_rows A)"
    and "set (independent_rows A) \<subseteq> set A"
proof -
  have "reduced n []" by (simp add: reduced_def)
  from independent_rows_from_correct [OF this assms, of "{}"]
  show "independent (row_vectors (independent_rows A))"
    and "span (row_vectors (independent_rows A)) = span (row_vectors A)"
    and "card (row_vectors (independent_rows A)) = length (independent_rows A)"
    and "set (independent_rows A) \<subseteq> set A"
    by (simp_all add: independent_rows_def bvecs_def independent_empty)
qed

lemma length_independent_rows:
  assumes "\<forall>r\<in>set A. length r = n"
  shows "length (independent_rows A) = rank A"
  using independent_rows_correct [OF assms]
    dim_eq_card [of "row_vectors (independent_rows A)" "row_vectors A"]
  by (simp add: rank_def)

lemma lin_comb_maps:
  "lin_comb (length rs) (map g ss) (map (\<lambda>s. map (\<lambda>r. f r s) rs) ss)
     = map (\<lambda>r. \<Sum>s\<leftarrow>ss. g s * f r s) rs"
proof (induction ss)
  case Nil
  show ?case by (simp add: map_replicate_const)
next
  case (Cons s ss)
  have "lin_comb (length rs) (map g (s # ss)) (map (\<lambda>s. map (\<lambda>r. f r s) rs) (s # ss))
      = map2 (\<lambda>a b. g s * a + b) (map (\<lambda>r. f r s) rs) (map (\<lambda>r. \<Sum>s\<leftarrow>ss. g s * f r s) rs)"
    by (simp add: Cons)
  also have "\<dots> = map (\<lambda>r. \<Sum>s\<leftarrow>s # ss. g s * f r s) rs"
    by (simp add: zip_map_map zip_same_conv_map comp_def)
  finally show ?case .
qed

lemma dot_maps: "dot (map g ss) (map f ss) = (\<Sum>s\<leftarrow>ss. g s * f s)"
  by (simp add: dot_def zip_map_map zip_same_conv_map comp_def)

lemma composition_vector_left_null:
  assumes "ReactionSystem rs ss = Inr net"
    and "v \<in> set (fst (composition_balance_vectors net))"
  shows "left_null_space (stoich_matrix net) v"
proof -
  from assms(1) have net: "rxns net = rs" "substances net = ss"
    by (auto simp: ReactionSystem_def split: if_splits)
  from assms(2) obtain k where v: "v = composition_vector ss k"
    by (auto simp: composition_balance_vectors_def Let_def net)
  have zero: "(\<Sum>s\<leftarrow>ss. int (stoich (composition s) k)
                 * (int (all_prod r (sname s)) - int (all_reac r (sname s)))) = 0"
    if "r \<in> set rs" for r
    using composition_vector_annihilates [OF assms(1,2), of r] that
    by (simp add: net v net_stoich_def composition_vector_def dot_maps)
  show ?thesis
  proof (cases ss)
    case Nil
    then show ?thesis
      by (simp add: left_null_space_def stoich_matrix_def net v composition_vector_def
          vec_mat_def ncols_def)
  next
    case (Cons s ss')
    then have nc: "ncols (stoich_matrix net) = length rs"
      by (simp add: ncols_def stoich_matrix_def net)
    have "vec_mat v (stoich_matrix net) = map (\<lambda>r. 0) rs"
      unfolding vec_mat_def nc
      unfolding stoich_matrix_def net v composition_vector_def lin_comb_maps
      by (rule map_cong) (simp_all add: zero)
    then show ?thesis
      by (simp add: left_null_space_def nc map_replicate_const)
        (simp add: stoich_matrix_def net v composition_vector_def)
  qed
qed

lemma ReactionSystem_rejects_unbalanced:
  "ReactionSystem [Reaction [''N''] [''NL''] [] [] ''binding without ligand''] substances_4state
     = Inl CompositionViolation"
  unfolding ReactionSystem_def
  by (simp add: keys_known_def balanced_def reaction_keys_def Reaction_def from_keys_def
      side_composition_def composition_vector_def dot_def all_reac_def all_prod_def stoich_def
      substances_4state_def list_all_iff composition_keys_def)

lemma ReactionSystem_rejects_unknown_species:
  "ReactionSystem [Reaction [''N''] [''X''] [] [] ''unknown product''] substances_4state
     = Inl MalformedNetwork"
  unfolding ReactionSystem_def
  by (simp add: keys_known_def reaction_keys_def Reaction_def from_keys_def
      substances_4state_def list_all_iff)

lemma composition_keys_4state: "composition_keys substances_4state = [''protein'', ''ligand'']"
  by (simp add: composition_keys_def substances_4state_def)

lemma rsys_eq: "rsys = Inr rsys_net"
  unfolding rsys_def rsys_net_def ReactionSystem_def
  by (simp add: keys_known_def balanced_def reaction_keys_def as_reactions_def eq_dis_def
      eq_u_def r_agg_def Reaction_def from_keys_def side_composition_def
      composition_vector_def dot_def all_reac_def all_prod_def stoich_def
      substances_4state_def list_all_iff composition_keys_def)

lemma composition_balance_vectors_rsys_net:
  "composition_balance_vectors rsys_net
     = ([[1, 1, 1, 0, 1], [0, 0, 0, 1, 1]], [''protein'', ''ligand''])"
  by (simp add: composition_balance_vectors_def rsys_net_def composition_keys_4state
      composition_vector_def Let_def)
    (simp add: substances_4state_def stoich_def)

lemma independent_rows_notebook:
  "independent_rows [[1, 1, 1, 0, 1], [0, 0, 0, 1, 1]] = [[1, 1, 1, 0, 1], [0, 0, 0, 1, 1]]"
  by (simp add: independent_rows_def Let_def add_pivot_def row_sub_def)

text \<open>
  Claim C5, as amended. For every network the constructor accepts,
  \<open>composition_balance_vectors\<close> produces one vector per component, each with one
  coefficient per species, and every such vector \<open>v\<close> lies in the left null-space of the
  stoichiometric matrix \<open>N\<close> of the network (\<open>v \<cdot> N = 0\<close>), not of the composition
  matrix; the number of independent vectors among them equals the rank of the
  composition matrix.
\<close>

theorem composition_vectors_left_null_of_stoichiometry:
  assumes "ReactionSystem rs ss = Inr net" and "composition_balance_vectors net = (A, ck)"
  shows "length A = length ck
       \<and> (\<forall>v\<in>set A. length v = length (substances net)
                     \<and> left_null_space (stoich_matrix net) v)
       \<and> length (independent_rows A) = rank A"
proof -
  have A: "A = map (composition_vector (substances net)) ck"
    using assms(2) by (auto simp: composition_balance_vectors_def Let_def)
  have len: "\<forall>r\<in>set A. length r = length (substances net)"
    by (simp add: A composition_vector_def)
  have "left_null_space (stoich_matrix net) v" if "v \<in> set A" for v
    using composition_vector_left_null [OF assms(1), of v] that assms(2) by simp
  with len length_independent_rows [OF len] show ?thesis
    by (simp add: A)
qed

theorem composition_vectors_left_null_of_stoichiometry_witness:
  "length [[1, 1, 1, 0, 1], [0, 0, 0, 1, 1 :: int]] = length [''protein'', ''ligand'']
   \<and> left_null_space (stoich_matrix rsys_net) [1, 1, 1, 0, 1]
   \<and> left_null_space (stoich_matrix rsys_net) [0, 0, 0, 1, 1]
   \<and> rank [[1, 1, 1, 0, 1], [0, 0, 0, 1, 1]] = 2"
  using composition_vectors_left_null_of_stoichiometry
    [OF rsys_eq [unfolded rsys_def] composition_balance_vectors_rsys_net]
  by (simp add: independent_rows_notebook)

text \<open>
  Claim C5 as stated fails on the network of the notebook. The first vector produced,
  the protein row \<open>[1, 1, 1, 0, 1]\<close>, is not in the left null-space of the composition
  matrix: it has five coefficients where the matrix has two rows, its product with the
  matrix taken row by row is not zero, and neither is the product of the matrix with it.
\<close>

theorem composition_vectors_not_null_of_composition_counterexample:
  "map_sum id composition_balance_vectors rsys
     = Inr ([[1, 1, 1, 0, 1], [0, 0, 0, 1, 1]], [''protein'', ''ligand''])
   \<and> \<not> left_null_space [[1, 1, 1, 0, 1], [0, 0, 0, 1, 1]] [1, 1, 1, 0, 1]
   \<and> vec_mat [1, 1, 1, 0, 1] [[1, 1, 1, 0, 1], [0, 0, 0, 1, 1]] = [1, 1, 1, 1, 2]
   \<and> mat_vec [[1, 1, 1, 0, 1], [0, 0, 0, 1, 1]] [1, 1, 1, 0, 1] = [4, 1]"
  by (simp add: rsys_eq composition_balance_vectors_rsys_net left_null_space_def vec_mat_def
      mat_vec_def dot_def ncols_def)

text \<open>
  Claim C6. For every network the constructor accepts, with composition matrix \<open>A\<close>:
  the independent invariants are rows of \<open>A\<close>, linearly independent, and span all rows
  of \<open>A\<close>; their number equals the rank of \<open>A\<close>; and every invariant vector \<open>v\<close> returned
  (every row of \<open>A\<close>) satisfies \<open>v \<cdot> \<Delta> = 0\<close> for the stoichiometric change vector \<open>\<Delta>\<close>
  of every reaction of the network.
\<close>

theorem independent_invariants_rank_and_annihilation:
  assumes "ReactionSystem rs ss = Inr net" and "composition_balance_vectors net = (A, ck)"
  shows "length (independent_rows A) = rank A
       \<and> set (independent_rows A) \<subseteq> set A
       \<and> independent (row_vectors (independent_rows A))
       \<and> span (row_vectors (independent_rows A)) = span (row_vectors A)
       \<and> (\<forall>v\<in>set A. \<forall>r\<in>set (rxns net). dot v (net_stoich net r) = 0)"
proof -
  have A: "A = map (composition_vector (substances net)) ck"
    using assms(2) by (auto simp: composition_balance_vectors_def Let_def)
  have len: "\<forall>r\<in>set A. length r = length (substances net)"
    by (simp add: A composition_vector_def)
  have "dot v (net_stoich net r) = 0" if "v \<in> set A" and "r \<in> set (rxns net)" for v r
    using composition_vector_annihilates [OF assms(1), of v r] that assms(2) by simp
  with length_independent_rows [OF len] independent_rows_correct(1,2,4) [OF len]
  show ?thesis by blast
qed

theorem independent_invariants_rank_and_annihilation_witness:
  "rank [[1, 1, 1, 0, 1], [0, 0, 0, 1, 1]] = 2
   \<and> dot [1, 1, 1, 0, 1] (net_stoich rsys_net r_agg) = 0
   \<and> dot [0, 0, 0, 1, 1] (net_stoich rsys_net eq_dis) = 0"
proof -
  have r: "r_agg \<in> set (rxns rsys_net)" "eq_dis \<in> set (rxns rsys_net)"
    by (simp_all add: rsys_net_def as_reactions_def)
  from independent_invariants_rank_and_annihilation
    [OF rsys_eq [unfolded rsys_def] composition_balance_vectors_rsys_net] r
  show ?thesis by (simp add: independent_rows_notebook)
qed

end
